theory Spec2Isabelle
  imports Complex_Main
begin

section \<open>PlanIt: the multi-agent planning pipeline of \<open>planit_simulation.py\<close>\<close>

text \<open>
  The script passes Python dictionaries with a fixed set of string keys between its
  agents. Each such dictionary is a record here:
  \<^item> the user input \<^verbatim>\<open>{"source", "destination", "priority"}\<close>;
  \<^item> the weights \<^verbatim>\<open>{"time_weight", "cost_weight"}\<close>;
  \<^item> a route \<^verbatim>\<open>{"route", "distance", "time"}\<close>, to which the later agents add the keys
    \<^verbatim>\<open>"cost"\<close>, \<^verbatim>\<open>"score_time"\<close> and \<^verbatim>\<open>"feasible"\<close>. A key that a stage adds is an
    \<open>option\<close> field: \<open>None\<close> while the key is absent, so that reading it then is the
    \<^verbatim>\<open>KeyError\<close> of Python.

  Every exception the code can raise is a value of \<open>py_error\<close>, and a function that can
  raise returns \<open>py_error + 'a\<close>. The \<^verbatim>\<open>print\<close> calls and the agent's \<^verbatim>\<open>name\<close>
  attribute, which only labels the printed lines, are left out.

  The annotating agents change the dictionaries of the list in place and return the same
  list; here they return the list of the updated records. Each of them writes one key,
  computed from keys it does not write, so the two agree also when one dictionary occurs
  at several positions of the list.
\<close>

subsection \<open>Exceptions\<close>

datatype py_error = NotImplementedError | ZeroDivisionError | KeyError string

subsection \<open>Python numbers\<close>

text \<open>
  A number in a route is a Python \<^verbatim>\<open>int\<close> (unbounded) or a Python \<^verbatim>\<open>float\<close>. A float
  is an IEEE 754 binary64 value: \<open>Fin q\<close> is the finite double of exact value \<open>q\<close>, and
  the other three constructors are \<^verbatim>\<open>inf\<close>, \<^verbatim>\<open>-inf\<close> and \<^verbatim>\<open>nan\<close>. The two zeros of the
  format are the one value \<open>Fin 0\<close>: the script's operations (division by either zero
  raises, comparison, sums and products) agree on them up to the sign of a zero result.
\<close>

datatype pyfloat = Fin rat | PosInf | NegInf | NaN

datatype pynum = PInt int | PFloat pyfloat

text \<open>
  Rounding of an exact value to the nearest double, ties to the even significand. For
  \<open>q > 0\<close> with \<open>2 ^ e \<le> q < 2 ^ (e + 1)\<close> the spacing of the doubles around \<open>q\<close> is
  \<open>2 ^ (e - 52)\<close>, and \<open>2 ^ (- 1074)\<close> in the subnormal range; a rounded value of
  \<open>2 ^ 1024\<close> or more is \<^verbatim>\<open>inf\<close>.
\<close>

definition pow2 :: "int \<Rightarrow> rat" where
  "pow2 p = (if 0 \<le> p then 2 ^ nat p else 1 / 2 ^ nat (- p))"

function bit_length :: "int \<Rightarrow> int" where
  "bit_length n = (if n \<le> 0 then 0 else 1 + bit_length (n div 2))"
  by pat_completeness auto
termination
  by (relation "measure nat") auto

declare bit_length.simps [simp del]

definition exponent_of :: "rat \<Rightarrow> int" where
  "exponent_of q =
     (if 1 \<le> q then bit_length \<lfloor>q\<rfloor> - 1
      else - bit_length (\<lceil>1 / q\<rceil> - 1))"

definition round_half_even :: "rat \<Rightarrow> int" where
  "round_half_even q =
     (let f = \<lfloor>q\<rfloor>; r = q - of_int f
      in if r < 1 / 2 then f else if 1 / 2 < r then f + 1
         else if even f then f else f + 1)"

definition round_pos :: "rat \<Rightarrow> pyfloat" where
  "round_pos q =
     (let p = max (exponent_of q - 52) (- 1074);
          v = of_int (round_half_even (q / pow2 p)) * pow2 p
      in if 2 ^ 1024 \<le> v then PosInf else Fin v)"

fun fneg :: "pyfloat \<Rightarrow> pyfloat" where
  "fneg (Fin v) = Fin (- v)"
| "fneg PosInf = NegInf"
| "fneg NegInf = PosInf"
| "fneg NaN = NaN"

definition round_double :: "rat \<Rightarrow> pyfloat" where
  "round_double q =
     (if q = 0 then Fin 0 else if 0 < q then round_pos q else fneg (round_pos (- q)))"

text \<open>
  The float product and sum: the exact result rounded, with the IEEE rules for the
  infinities and \<^verbatim>\<open>nan\<close>. Python raises no error in either, also when the result
  overflows to \<^verbatim>\<open>inf\<close>.
\<close>

fun fmul :: "pyfloat \<Rightarrow> pyfloat \<Rightarrow> pyfloat" where
  "fmul (Fin a) (Fin b) = round_double (a * b)"
| "fmul (Fin a) PosInf = (if a = 0 then NaN else if 0 < a then PosInf else NegInf)"
| "fmul (Fin a) NegInf = (if a = 0 then NaN else if 0 < a then NegInf else PosInf)"
| "fmul PosInf (Fin b) = (if b = 0 then NaN else if 0 < b then PosInf else NegInf)"
| "fmul NegInf (Fin b) = (if b = 0 then NaN else if 0 < b then NegInf else PosInf)"
| "fmul PosInf PosInf = PosInf"
| "fmul PosInf NegInf = NegInf"
| "fmul NegInf PosInf = NegInf"
| "fmul NegInf NegInf = PosInf"
| "fmul NaN y = NaN"
| "fmul x NaN = NaN"

fun fadd :: "pyfloat \<Rightarrow> pyfloat \<Rightarrow> pyfloat" where
  "fadd (Fin a) (Fin b) = round_double (a + b)"
| "fadd (Fin a) PosInf = PosInf"
| "fadd (Fin a) NegInf = NegInf"
| "fadd PosInf (Fin b) = PosInf"
| "fadd NegInf (Fin b) = NegInf"
| "fadd PosInf PosInf = PosInf"
| "fadd NegInf NegInf = NegInf"
| "fadd PosInf NegInf = NaN"
| "fadd NegInf PosInf = NaN"
| "fadd NaN y = NaN"
| "fadd x NaN = NaN"

text \<open>
  The comparisons \<^verbatim>\<open>x > y\<close> and \<^verbatim>\<open>x <= y\<close> of two floats; both are false when either
  side is \<^verbatim>\<open>nan\<close>. Python compares a float with an \<^verbatim>\<open>int\<close> by their exact values, so
  the \<^verbatim>\<open>int\<close> \<^verbatim>\<open>-1\<close> that starts the scan of the fusion compares as \<open>Fin (- 1)\<close>.
\<close>

fun fgt :: "pyfloat \<Rightarrow> pyfloat \<Rightarrow> bool" where
  "fgt (Fin a) (Fin b) = (b < a)"
| "fgt (Fin a) NegInf = True"
| "fgt PosInf (Fin b) = True"
| "fgt PosInf NegInf = True"
| "fgt x y = False"

fun fle :: "pyfloat \<Rightarrow> pyfloat \<Rightarrow> bool" where
  "fle (Fin a) (Fin b) = (a \<le> b)"
| "fle (Fin a) PosInf = True"
| "fle NegInf (Fin b) = True"
| "fle NegInf NegInf = True"
| "fle NegInf PosInf = True"
| "fle PosInf PosInf = True"
| "fle x y = False"

text \<open>
  \<^verbatim>\<open>x * 5\<close>: exact on an \<^verbatim>\<open>int\<close>; on a float the \<^verbatim>\<open>int\<close> \<^verbatim>\<open>5\<close> becomes the float
  \<^verbatim>\<open>5.0\<close> and the product is the float product.
\<close>

fun times_5 :: "pynum \<Rightarrow> pynum" where
  "times_5 (PInt i) = PInt (i * 5)"
| "times_5 (PFloat x) = PFloat (fmul x (Fin 5))"

text \<open>
  \<^verbatim>\<open>1 / x\<close>, Python's true division: \<^verbatim>\<open>ZeroDivisionError\<close> when \<open>x\<close> is zero (an
  \<^verbatim>\<open>int\<close> or a float), and otherwise the float nearest to the exact quotient, for an
  \<^verbatim>\<open>int\<close> of any size as for a float. A quotient too large for a double is \<^verbatim>\<open>inf\<close>, with
  no error.
\<close>

fun one_over :: "pynum \<Rightarrow> py_error + pyfloat" where
  "one_over (PInt i) =
     (if i = 0 then Inl ZeroDivisionError else Inr (round_double (1 / of_int i)))"
| "one_over (PFloat (Fin v)) =
     (if v = 0 then Inl ZeroDivisionError else Inr (round_double (1 / v)))"
| "one_over (PFloat PosInf) = Inr (Fin 0)"
| "one_over (PFloat NegInf) = Inr (Fin 0)"
| "one_over (PFloat NaN) = Inr NaN"

text \<open>\<^verbatim>\<open>x > 0\<close> and \<^verbatim>\<open>x == 0\<close> for a number of a route.\<close>

fun py_positive :: "pynum \<Rightarrow> bool" where
  "py_positive (PInt i) = (0 < i)"
| "py_positive (PFloat x) = fgt x (Fin 0)"

fun py_zero :: "pynum \<Rightarrow> bool" where
  "py_zero (PInt i) = (i = 0)"
| "py_zero (PFloat x) = (x = Fin 0)"

subsection \<open>Data\<close>

record user_input =
  source :: string
  destination :: string
  priority :: string

record weights =
  time_weight :: pyfloat
  cost_weight :: pyfloat

record candidate =
  route :: string
  distance :: pynum
  time :: pynum
  cost :: "pynum option"
  score_time :: "pyfloat option"
  feasible :: "bool option"

subsection \<open>The agents\<close>

text \<open>\<^verbatim>\<open>BaseAgent.process\<close>: raises, whatever the data.\<close>

definition BaseAgent_process :: "'a \<Rightarrow> py_error + 'b" where
  "BaseAgent_process data = Inl NotImplementedError"

text \<open>
  \<^verbatim>\<open>PreferenceAgent.process\<close>: both entries test \<^verbatim>\<open>priority == "fast"\<close>. The literals
  \<^verbatim>\<open>0.6\<close> and \<^verbatim>\<open>0.4\<close> are the doubles nearest to 6/10 and 4/10.
\<close>

definition PreferenceAgent_process :: "user_input \<Rightarrow> weights" where
  "PreferenceAgent_process u =
     \<lparr> time_weight =
         (if priority u = ''fast'' then round_double (6 / 10) else round_double (4 / 10)),
       cost_weight =
         (if priority u = ''fast'' then round_double (4 / 10) else round_double (6 / 10)) \<rparr>"

text \<open>\<^verbatim>\<open>RouteAgent.process\<close>: the fixed list, whatever the data.\<close>

definition RouteAgent_process :: "user_input \<Rightarrow> candidate list" where
  "RouteAgent_process u =
     [ \<lparr> route = ''Route A'', distance = PInt 10, time = PInt 20,
         cost = None, score_time = None, feasible = None \<rparr>,
       \<lparr> route = ''Route B'', distance = PInt 14, time = PInt 15,
         cost = None, score_time = None, feasible = None \<rparr>,
       \<lparr> route = ''Route C'', distance = PInt 8, time = PInt 25,
         cost = None, score_time = None, feasible = None \<rparr> ]"

text \<open>\<^verbatim>\<open>CostAgent.process\<close>: \<^verbatim>\<open>r["cost"] = r["distance"] * 5\<close> for each route.\<close>

fun CostAgent_process :: "candidate list \<Rightarrow> candidate list" where
  "CostAgent_process [] = []"
| "CostAgent_process (r # routes) =
     r\<lparr>cost := Some (times_5 (distance r))\<rparr> # CostAgent_process routes"

text \<open>
  \<^verbatim>\<open>TimeAgent.process\<close>: \<^verbatim>\<open>r["score_time"] = 1 / r["time"]\<close> for each route. The
  division raises \<^verbatim>\<open>ZeroDivisionError\<close> at the first route whose time is zero, and the
  exception leaves the loop and the function.
\<close>

fun TimeAgent_process :: "candidate list \<Rightarrow> py_error + candidate list" where
  "TimeAgent_process [] = Inr []"
| "TimeAgent_process (r # routes) =
     (case one_over (time r) of
        Inl e \<Rightarrow> Inl e
      | Inr q \<Rightarrow>
          (case TimeAgent_process routes of
             Inl e \<Rightarrow> Inl e
           | Inr routes' \<Rightarrow> Inr (r\<lparr>score_time := Some q\<rparr> # routes')))"

text \<open>\<^verbatim>\<open>ResourceAgent.process\<close>: \<^verbatim>\<open>r["feasible"] = True\<close> for each route.\<close>

fun ResourceAgent_process :: "candidate list \<Rightarrow> candidate list" where
  "ResourceAgent_process [] = []"
| "ResourceAgent_process (r # routes) =
     r\<lparr>feasible := Some True\<rparr> # ResourceAgent_process routes"

subsection \<open>Decision fusion\<close>

text \<open>
  The score expression of the loop body, in Python's order of evaluation:
  \<^verbatim>\<open>1 / r["time"]\<close> first (zero time raises), then \<^verbatim>\<open>r["cost"]\<close> (an absent key
  raises), then \<^verbatim>\<open>1 / r["cost"]\<close> (zero cost raises). The two products and the sum are
  float operations.
\<close>

definition score :: "weights \<Rightarrow> candidate \<Rightarrow> py_error + pyfloat" where
  "score w r =
     (case one_over (time r) of
        Inl e \<Rightarrow> Inl e
      | Inr qt \<Rightarrow>
          (case cost r of
             None \<Rightarrow> Inl (KeyError ''cost'')
           | Some c \<Rightarrow>
               (case one_over c of
                  Inl e \<Rightarrow> Inl e
                | Inr qc \<Rightarrow>
                    Inr (fadd (fmul (time_weight w) qt) (fmul (cost_weight w) qc)))))"

text \<open>
  The \<^verbatim>\<open>for\<close> loop of \<^verbatim>\<open>select_best\<close> over the remaining routes, with the loop state
  \<^verbatim>\<open>(best_score, best_route)\<close>; \<open>None\<close> is Python's \<^verbatim>\<open>None\<close>.
\<close>

fun select_loop ::
  "weights \<Rightarrow> candidate list \<Rightarrow> pyfloat \<times> candidate option \<Rightarrow>
   py_error + (pyfloat \<times> candidate option)"
where
  "select_loop w [] (best_score, best_route) = Inr (best_score, best_route)"
| "select_loop w (r # routes) (best_score, best_route) =
     (case score w r of
        Inl e \<Rightarrow> Inl e
      | Inr s \<Rightarrow>
          if fgt s best_score then select_loop w routes (s, Some r)
          else select_loop w routes (best_score, best_route))"

text \<open>\<^verbatim>\<open>DecisionFusion.select_best\<close>: the loop from \<^verbatim>\<open>(-1, None)\<close>, returning the route.\<close>

definition select_best :: "candidate list \<Rightarrow> weights \<Rightarrow> py_error + candidate option" where
  "select_best routes w =
     (case select_loop w routes (Fin (- 1), None) of
        Inl e \<Rightarrow> Inl e
      | Inr (best_score, best_route) \<Rightarrow> Inr best_route)"

subsection \<open>The driver\<close>

text \<open>
  \<^verbatim>\<open>run_planit\<close>: the fixed user input through the agents in order; the value is the
  \<^verbatim>\<open>best_route\<close> that the driver prints.
\<close>

definition the_user_input :: user_input where
  "the_user_input =
     \<lparr> source = ''Location A'', destination = ''Location B'', priority = ''fast'' \<rparr>"

definition pipeline :: "user_input \<Rightarrow> py_error + candidate option" where
  "pipeline u =
     (let w = PreferenceAgent_process u;
          routes = RouteAgent_process u;
          routes = CostAgent_process routes
      in case TimeAgent_process routes of
           Inl e \<Rightarrow> Inl e
         | Inr routes \<Rightarrow> select_best (ResourceAgent_process routes) w)"

definition run_planit :: "py_error + candidate option" where
  "run_planit = pipeline the_user_input"

section \<open>Properties\<close>

subsection \<open>Evaluating the rounding on numerals\<close>

lemma bit_length_0: "bit_length 0 = 0"
  by (simp add: bit_length.simps)

lemma bit_length_1: "bit_length 1 = 1"
  by (simp add: bit_length.simps [of 1] bit_length_0)

lemma bit_length_One: "bit_length (numeral Num.One) = 1"
  using bit_length_1 by simp

lemma bit_length_Bit0: "bit_length (numeral (Num.Bit0 n)) = 1 + bit_length (numeral n)"
  by (subst bit_length.simps) simp

lemma bit_length_Bit1: "bit_length (numeral (Num.Bit1 n)) = 1 + bit_length (numeral n)"
  by (subst bit_length.simps) simp

lemma floor_rat_numeral_div: "\<lfloor>numeral a / numeral b :: rat\<rfloor> = numeral a div numeral b"
  using floor_divide_of_int_eq [of "numeral a" "numeral b", where ?'a = rat] by simp

lemma floor_rat_one_div: "\<lfloor>1 / numeral b :: rat\<rfloor> = 1 div numeral b"
  using floor_divide_of_int_eq [of 1 "numeral b", where ?'a = rat] by simp

lemma ceiling_rat_numeral_div:
  "\<lceil>numeral a / numeral b :: rat\<rceil> = - (- numeral a div numeral b)"
  using floor_divide_of_int_eq [of "- numeral a" "numeral b", where ?'a = rat]
  by (simp add: ceiling_def)

lemma ceiling_rat_one_div: "\<lceil>1 / numeral b :: rat\<rceil> = - (- 1 div numeral b)"
  using floor_divide_of_int_eq [of "- 1" "numeral b", where ?'a = rat]
  by (simp add: ceiling_def)

lemmas round_double_eval =
  round_double_def round_pos_def exponent_of_def round_half_even_def pow2_def Let_def
  bit_length_0 bit_length_1 bit_length_One bit_length_Bit0 bit_length_Bit1
  floor_rat_numeral_div floor_rat_one_div ceiling_rat_numeral_div ceiling_rat_one_div

subsection \<open>The rounding is to a nearest double\<close>

text \<open>
  For \<open>q > 0\<close> the exponent is the one with \<open>2 ^ e \<le> q < 2 ^ (e + 1)\<close>; the rounded
  value is a multiple of the spacing, within half a spacing of \<open>q\<close>, and its multiplier
  fits the 53 bits of a significand (or is \<open>2 ^ 53\<close>, the next power of two).
\<close>

lemma bit_length_pos: "0 < n \<Longrightarrow> 0 < bit_length n"
proof (induction n rule: bit_length.induct)
  case (1 n)
  have "0 \<le> bit_length (n div 2)"
  proof (cases "0 < n div 2")
    case True
    with 1 show ?thesis by simp
  next
    case False
    then show ?thesis by (simp add: bit_length.simps [of "n div 2"])
  qed
  with 1 show ?case by (simp add: bit_length.simps [of n])
qed

lemma bit_length_bounds:
  "0 < n \<Longrightarrow> 2 ^ nat (bit_length n - 1) \<le> n \<and> n < 2 ^ nat (bit_length n)"
proof (induction n rule: bit_length.induct)
  case (1 n)
  show ?case
  proof (cases "n = 1")
    case True
    then show ?thesis by (simp add: bit_length.simps [of 1] bit_length.simps [of 0])
  next
    case False
    with 1 have half: "0 < n div 2" by simp
    with 1 have IH: "2 ^ nat (bit_length (n div 2) - 1) \<le> n div 2"
      "n div 2 < 2 ^ nat (bit_length (n div 2))" by simp_all
    have bl: "bit_length n = 1 + bit_length (n div 2)"
      using 1(2) by (simp add: bit_length.simps [of n])
    have pos: "0 < bit_length (n div 2)" using half by (rule bit_length_pos)
    then have e1: "nat (bit_length n - 1) = Suc (nat (bit_length (n div 2) - 1))"
      and e2: "nat (bit_length n) = Suc (nat (bit_length (n div 2)))"
      using bl by simp_all
    from IH(1) have "2 * 2 ^ nat (bit_length (n div 2) - 1) \<le> 2 * (n div 2)" by simp
    also have "\<dots> \<le> n" by simp
    finally have lower: "2 ^ nat (bit_length n - 1) \<le> n" using e1 by simp
    from IH(2) have "n div 2 + 1 \<le> 2 ^ nat (bit_length (n div 2))" by simp
    then have "2 * (n div 2) + 2 \<le> 2 * 2 ^ nat (bit_length (n div 2))" by simp
    moreover have "n < 2 * (n div 2) + 2" by presburger
    ultimately have upper: "n < 2 ^ nat (bit_length n)" using e2 by simp
    from lower upper show ?thesis by simp
  qed
qed

lemma round_half_even_error: "\<bar>of_int (round_half_even x) - x\<bar> \<le> 1 / 2"
proof -
  have "of_int \<lfloor>x\<rfloor> \<le> x" "x < of_int \<lfloor>x\<rfloor> + 1" by linarith+
  then show ?thesis by (auto simp: round_half_even_def Let_def)
qed

lemma pow2_nonneg_exp: "0 \<le> p \<Longrightarrow> pow2 p = of_int (2 ^ nat p)"
  by (simp add: pow2_def)

lemma exponent_of_bounds:
  assumes "0 < q"
  shows "pow2 (exponent_of q) \<le> q \<and> q < pow2 (exponent_of q + 1)"
proof (cases "1 \<le> q")
  case True
  define n where "n = \<lfloor>q\<rfloor>"
  have n: "0 < n" using True by (simp add: n_def)
  have fl: "of_int n \<le> q" "q < of_int n + 1" unfolding n_def by linarith+
  from bit_length_bounds [OF n] have lo: "2 ^ nat (bit_length n - 1) \<le> n"
    and hi: "n < 2 ^ nat (bit_length n)" by simp_all
  have blpos: "0 < bit_length n" using n by (rule bit_length_pos)
  have e: "exponent_of q = bit_length n - 1" using True by (simp add: exponent_of_def n_def)
  have "pow2 (exponent_of q) = of_int (2 ^ nat (bit_length n - 1))"
    using blpos e by (simp add: pow2_def)
  also have "\<dots> \<le> of_int n" using lo by (simp only: of_int_le_iff)
  also have "\<dots> \<le> q" by (rule fl(1))
  finally have lower: "pow2 (exponent_of q) \<le> q" .
  from hi have "n + 1 \<le> 2 ^ nat (bit_length n)" by simp
  then have "(of_int (n + 1) :: rat) \<le> of_int (2 ^ nat (bit_length n))"
    by (simp only: of_int_le_iff)
  moreover from fl(2) have "q < of_int (n + 1)" by simp
  ultimately have "q < of_int (2 ^ nat (bit_length n))" by (rule order_less_le_trans [rotated])
  moreover have "pow2 (exponent_of q + 1) = of_int (2 ^ nat (bit_length n))"
    using blpos e by (simp add: pow2_def)
  ultimately have upper: "q < pow2 (exponent_of q + 1)" by simp
  from lower upper show ?thesis by simp
next
  case False
  then have q1: "q < 1" by simp
  define N where "N = \<lceil>1 / q\<rceil>"
  have inv: "1 < 1 / q" using assms q1 by simp
  have ce: "1 / q \<le> of_int N" "of_int N - 1 < 1 / q" unfolding N_def by linarith+
  from inv ce(1) have "(1::rat) < of_int N" by linarith
  then have N2: "2 \<le> N" by simp
  then have m: "0 < N - 1" by simp
  define k where "k = bit_length (N - 1)"
  from bit_length_bounds [OF m] have lo: "2 ^ nat (k - 1) \<le> N - 1"
    and hi: "N - 1 < 2 ^ nat k" by (simp_all add: k_def)
  have kpos: "0 < k" unfolding k_def using m by (rule bit_length_pos)
  have e: "exponent_of q = - k" using False by (simp add: exponent_of_def N_def k_def)
  from hi have "N \<le> 2 ^ nat k" by simp
  then have "(of_int N :: rat) \<le> of_int (2 ^ nat k)" by (simp only: of_int_le_iff)
  with ce(1) have "1 / q \<le> of_int (2 ^ nat k)" by (rule order_trans)
  then have "1 / q \<le> 2 ^ nat k" by simp
  then have "1 \<le> 2 ^ nat k * q" using assms by (simp add: field_simps)
  then have "1 / 2 ^ nat k \<le> q" by (simp add: field_simps)
  moreover have "pow2 (exponent_of q) = 1 / 2 ^ nat k" using kpos e by (simp add: pow2_def)
  ultimately have lower: "pow2 (exponent_of q) \<le> q" by simp
  have upper: "q < pow2 (exponent_of q + 1)"
  proof (cases "k = 1")
    case True
    with e q1 show ?thesis by (simp add: pow2_def)
  next
    case False
    with kpos have k2: "2 \<le> k" by simp
    from lo have "(of_int (2 ^ nat (k - 1)) :: rat) \<le> of_int (N - 1)"
      by (simp only: of_int_le_iff)
    moreover from ce(2) have "(of_int (N - 1) :: rat) < 1 / q" by simp
    ultimately have "(of_int (2 ^ nat (k - 1)) :: rat) < 1 / q" by (rule order_le_less_trans)
    then have "2 ^ nat (k - 1) < 1 / q" by simp
    then have "2 ^ nat (k - 1) * q < 1" using assms by (simp add: field_simps)
    then have "q < 1 / 2 ^ nat (k - 1)" by (simp add: field_simps)
    moreover have "pow2 (exponent_of q + 1) = 1 / 2 ^ nat (k - 1)"
      using k2 e by (simp add: pow2_def)
    ultimately show ?thesis by simp
  qed
  from lower upper show ?thesis by simp
qed

text \<open>
  The rounded value is a multiple of the spacing and lies within half a spacing of the
  exact value.
\<close>

lemma round_pos_nearest:
  assumes "0 < q" and "round_pos q = Fin v"
  shows "\<exists>m. v = of_int m * pow2 (max (exponent_of q - 52) (- 1074)) \<and>
             \<bar>v - q\<bar> \<le> pow2 (max (exponent_of q - 52) (- 1074)) / 2"
proof -
  define p where "p = max (exponent_of q - 52) (- 1074)"
  define m where "m = round_half_even (q / pow2 p)"
  have pp: "0 < pow2 p" by (simp add: pow2_def)
  from assms(2) have v: "v = of_int m * pow2 p"
    by (simp add: round_pos_def Let_def p_def m_def split: if_splits)
  have "\<bar>of_int m - q / pow2 p\<bar> \<le> 1 / 2" unfolding m_def by (rule round_half_even_error)
  then have "\<bar>of_int m - q / pow2 p\<bar> * pow2 p \<le> 1 / 2 * pow2 p"
    using pp by (simp only: mult_le_cancel_right) simp
  moreover have "\<bar>of_int m - q / pow2 p\<bar> * pow2 p = \<bar>of_int m * pow2 p - q\<bar>"
  proof -
    have "\<bar>of_int m - q / pow2 p\<bar> * pow2 p = \<bar>(of_int m - q / pow2 p) * pow2 p\<bar>"
      using pp by (simp add: abs_mult)
    also have "(of_int m - q / pow2 p) * pow2 p = of_int m * pow2 p - q"
      using pp by (simp add: field_simps)
    finally show ?thesis .
  qed
  ultimately have "\<bar>v - q\<bar> \<le> pow2 p / 2" using v by simp
  with v show ?thesis unfolding p_def by blast
qed

lemma pow2_powi: "pow2 p = 2 powi p"
  by (simp add: pow2_def power_int_def power_one_over)

lemma pow2_add: "pow2 (a + b) = pow2 a * pow2 b"
  by (simp add: pow2_powi power_int_add)

lemma pow2_mono: "a \<le> b \<Longrightarrow> pow2 a \<le> pow2 b"
  by (simp add: pow2_powi power_int_increasing)

text \<open>The rounded significand has at most 53 bits, or is \<open>2 ^ 53\<close> (the next power of two).\<close>

lemma round_pos_significand:
  assumes "0 < q"
  shows "round_half_even (q / pow2 (max (exponent_of q - 52) (- 1074))) \<le> 2 ^ 53"
proof -
  define p where "p = max (exponent_of q - 52) (- 1074)"
  have pp: "0 < pow2 p" by (simp add: pow2_def)
  have "q < pow2 (exponent_of q + 1)" using exponent_of_bounds [OF assms] by simp
  also have "pow2 (exponent_of q + 1) \<le> pow2 (p + 53)"
    by (rule pow2_mono) (simp add: p_def)
  also have "pow2 (p + 53) = pow2 p * 2 ^ 53"
  proof -
    have "pow2 53 = 2 ^ 53" by (simp add: pow2_def)
    then show ?thesis by (simp only: pow2_add)
  qed
  finally have "q / pow2 p < 2 ^ 53" using pp by (simp add: field_simps)
  then have "q / pow2 p < of_int (2 ^ 53)" by simp
  then have "\<lfloor>q / pow2 p\<rfloor> < 2 ^ 53" by (simp only: floor_less_iff)
  then show ?thesis unfolding p_def [symmetric] by (simp add: round_half_even_def Let_def)
qed

subsection \<open>The rounding on some values\<close>

text \<open>
  The doubles of the literals and quotients of the script, as Python prints their exact
  values; a quotient that underflows is \<^verbatim>\<open>0.0\<close> and one that overflows is \<^verbatim>\<open>inf\<close>.
\<close>

lemma round_double_values:
  "round_double (6 / 10) = Fin (5404319552844595 / 9007199254740992)"
  "round_double (4 / 10) = Fin (3602879701896397 / 9007199254740992)"
  "round_double (1 / 20) = Fin (3602879701896397 / 72057594037927936)"
  "round_double (1 / 15) = Fin (4803839602528529 / 72057594037927936)"
  "round_double (1 / 25) = Fin (5764607523034235 / 144115188075855872)"
  by (simp_all add: round_double_eval)

lemma one_over_huge_int: "one_over (PInt (10 ^ 400)) = Inr (Fin 0)"
  by (simp add: round_double_eval)

lemma one_over_tiny_float: "one_over (PFloat (Fin (1 / 2 ^ 1074))) = Inr PosInf"
  by (simp add: round_double_eval)

lemma one_over_three:
  "one_over (PInt 3) = Inr (Fin (6004799503160661 / 18014398509481984))"
  by (simp add: round_double_eval)

subsection \<open>The order of the floats\<close>

lemma fgt_trans: "fgt a b \<Longrightarrow> fgt b c \<Longrightarrow> fgt a c"
  by (cases a; cases b; cases c) auto

lemma fgt_fle_trans: "fgt a b \<Longrightarrow> fle c b \<Longrightarrow> fgt a c"
  by (cases a; cases b; cases c) auto

lemma not_fgt_fle: "a \<noteq> NaN \<Longrightarrow> b \<noteq> NaN \<Longrightarrow> \<not> fgt a b \<Longrightarrow> fle a b"
  by (cases a; cases b) auto

lemma fle_not_NaN: "fle a b \<Longrightarrow> a \<noteq> NaN \<and> b \<noteq> NaN"
  by (cases a; cases b) auto

lemma fle_zero_fgt_minus_one: "fle (Fin 0) s \<Longrightarrow> fgt s (Fin (- 1))"
  by (cases s) auto

subsection \<open>Values that are not negative\<close>

lemma pow2_pos: "0 < pow2 p"
  by (simp add: pow2_def)

lemma round_half_even_nonneg: "0 \<le> q \<Longrightarrow> 0 \<le> round_half_even q"
  by (simp add: round_half_even_def Let_def)

lemma round_pos_nonneg: "0 \<le> q \<Longrightarrow> fle (Fin 0) (round_pos q)"
proof -
  assume q: "0 \<le> q"
  define p where "p = max (exponent_of q - 52) (- 1074)"
  have "0 \<le> q / pow2 p" using q pow2_pos [of p] by simp
  then have "0 \<le> round_half_even (q / pow2 p)" by (rule round_half_even_nonneg)
  then have "0 \<le> rat_of_int (round_half_even (q / pow2 p)) * pow2 p"
    using pow2_pos [of p] by simp
  then show ?thesis by (simp add: round_pos_def Let_def p_def)
qed

lemma round_double_nonneg: "0 \<le> q \<Longrightarrow> fle (Fin 0) (round_double q)"
  by (simp add: round_double_def round_pos_nonneg)

lemma fmul_nonneg: "0 < a \<Longrightarrow> fle (Fin 0) x \<Longrightarrow> fle (Fin 0) (fmul (Fin a) x)"
  by (cases x) (simp_all add: round_double_nonneg)

lemma fadd_nonneg: "fle (Fin 0) x \<Longrightarrow> fle (Fin 0) y \<Longrightarrow> fle (Fin 0) (fadd x y)"
  by (cases x; cases y) (simp_all add: round_double_nonneg)

lemma one_over_positive:
  "py_positive x \<Longrightarrow> \<exists>q. one_over x = Inr q \<and> fle (Fin 0) q"
proof (cases x)
  case (PInt i)
  assume "py_positive x"
  with PInt have "0 < i" by simp
  then have "0 \<le> 1 / rat_of_int i" by simp
  then have "fle (Fin 0) (round_double (1 / rat_of_int i))" by (rule round_double_nonneg)
  with PInt \<open>0 < i\<close> show ?thesis by simp
next
  case (PFloat y)
  assume "py_positive x"
  with PFloat have pos: "fgt y (Fin 0)" by simp
  show ?thesis
  proof (cases y)
    case (Fin v)
    with pos have "0 < v" by simp
    then have "0 \<le> 1 / v" by simp
    then have "fle (Fin 0) (round_double (1 / v))" by (rule round_double_nonneg)
    with PFloat Fin \<open>0 < v\<close> show ?thesis by simp
  next
    case PosInf
    with PFloat show ?thesis by simp
  next
    case NegInf
    with pos show ?thesis by simp
  next
    case NaN
    with pos show ?thesis by simp
  qed
qed

lemma score_nonneg:
  assumes "py_positive (time r)" "cost r = Some c" "py_positive c"
    and "time_weight w = Fin a" "0 < a" "cost_weight w = Fin b" "0 < b"
  shows "\<exists>qt qc. one_over (time r) = Inr qt \<and> one_over c = Inr qc \<and>
           score w r = Inr (fadd (fmul (time_weight w) qt) (fmul (cost_weight w) qc)) \<and>
           fle (Fin 0) (fadd (fmul (time_weight w) qt) (fmul (cost_weight w) qc))"
proof -
  from one_over_positive [OF assms(1)] obtain qt
    where qt: "one_over (time r) = Inr qt" "fle (Fin 0) qt" by blast
  from one_over_positive [OF assms(3)] obtain qc
    where qc: "one_over c = Inr qc" "fle (Fin 0) qc" by blast
  have "fle (Fin 0) (fmul (Fin a) qt)" using assms(5) qt(2) by (rule fmul_nonneg)
  moreover have "fle (Fin 0) (fmul (Fin b) qc)" using assms(7) qc(2) by (rule fmul_nonneg)
  ultimately have "fle (Fin 0) (fadd (fmul (Fin a) qt) (fmul (Fin b) qc))"
    by (rule fadd_nonneg)
  moreover have "score w r = Inr (fadd (fmul (Fin a) qt) (fmul (Fin b) qc))"
    using qt(1) qc(1) assms(2,4,6) by (simp add: score_def)
  ultimately show ?thesis using qt(1) qc(1) assms(4,6) by simp
qed

subsection \<open>The stages as maps over the route list\<close>

lemma CostAgent_process_map:
  "CostAgent_process routes = map (\<lambda>r. r\<lparr>cost := Some (times_5 (distance r))\<rparr>) routes"
  by (induction routes) simp_all

lemma ResourceAgent_process_map:
  "ResourceAgent_process routes = map (\<lambda>r. r\<lparr>feasible := Some True\<rparr>) routes"
  by (induction routes) simp_all

lemma one_over_zero: "py_zero x \<Longrightarrow> one_over x = Inl ZeroDivisionError"
  by (cases x) auto

lemma one_over_nonzero: "\<not> py_zero x \<Longrightarrow> \<exists>q. one_over x = Inr q"
proof (cases x)
  case (PInt i)
  assume "\<not> py_zero x"
  with PInt show ?thesis by simp
next
  case (PFloat y)
  assume "\<not> py_zero x"
  with PFloat show ?thesis by (cases y) simp_all
qed

lemma TimeAgent_process_zero:
  "\<exists>r \<in> set routes. py_zero (time r) \<Longrightarrow> TimeAgent_process routes = Inl ZeroDivisionError"
proof (induction routes)
  case Nil
  then show ?case by simp
next
  case (Cons r routes)
  show ?case
  proof (cases "py_zero (time r)")
    case True
    then show ?thesis by (simp add: one_over_zero)
  next
    case False
    with Cons.prems have "\<exists>r \<in> set routes. py_zero (time r)" by simp
    then have rest: "TimeAgent_process routes = Inl ZeroDivisionError" by (rule Cons.IH)
    from False obtain q where "one_over (time r) = Inr q" using one_over_nonzero by blast
    with rest show ?thesis by simp
  qed
qed

lemma TimeAgent_process_nonzero:
  "\<forall>r \<in> set routes. \<not> py_zero (time r) \<Longrightarrow>
   \<exists>routes'. TimeAgent_process routes = Inr routes' \<and>
     list_all2 (\<lambda>r r'. \<exists>q. one_over (time r) = Inr q \<and> r' = r\<lparr>score_time := Some q\<rparr>)
       routes routes'"
proof (induction routes)
  case Nil
  then show ?case by simp
next
  case (Cons r routes)
  from Cons.prems obtain q where q: "one_over (time r) = Inr q"
    using one_over_nonzero by fastforce
  from Cons.prems have "\<forall>r \<in> set routes. \<not> py_zero (time r)" by simp
  from Cons.IH [OF this] obtain routes' where
    "TimeAgent_process routes = Inr routes'"
    "list_all2 (\<lambda>r r'. \<exists>q. one_over (time r) = Inr q \<and> r' = r\<lparr>score_time := Some q\<rparr>)
       routes routes'"
    by blast
  with q show ?case by simp
qed

lemma TimeAgent_process_Inr:
  "TimeAgent_process routes = Inr routes' \<Longrightarrow>
   list_all2 (\<lambda>r r'. \<exists>q. one_over (time r) = Inr q \<and> r' = r\<lparr>score_time := Some q\<rparr>)
     routes routes'"
proof (induction routes arbitrary: routes')
  case Nil
  then show ?case by simp
next
  case (Cons r routes)
  from Cons.prems obtain q rest where q: "one_over (time r) = Inr q"
    and rest: "TimeAgent_process routes = Inr rest"
    and res: "routes' = r\<lparr>score_time := Some q\<rparr> # rest"
    by (auto split: sum.splits)
  from Cons.IH [OF rest] q res show ?case by simp
qed

subsection \<open>The scan of decision fusion\<close>

text \<open>
  The loop, started from any state whose best score is a number, over routes whose scores
  are all defined and numbers: either no route beats the best score and the state is
  unchanged, or the loop ends on the first route of greatest score.
\<close>

lemma select_loop_scan:
  assumes "\<forall>r \<in> set routes. \<exists>s. score w r = Inr s \<and> s \<noteq> NaN" and "bs \<noteq> NaN"
  shows "(select_loop w routes (bs, br) = Inr (bs, br) \<and>
            (\<forall>r \<in> set routes. \<exists>t. score w r = Inr t \<and> fle t bs)) \<or>
         (\<exists>pre b post s. routes = pre @ b # post \<and>
            select_loop w routes (bs, br) = Inr (s, Some b) \<and>
            score w b = Inr s \<and> fgt s bs \<and>
            (\<forall>r \<in> set pre. \<exists>t. score w r = Inr t \<and> fgt s t) \<and>
            (\<forall>r \<in> set post. \<exists>t. score w r = Inr t \<and> fle t s))"
  using assms
proof (induction routes arbitrary: bs br)
  case Nil
  then show ?case by simp
next
  case (Cons r routes)
  from Cons.prems obtain s where s: "score w r = Inr s" "s \<noteq> NaN" by auto
  from Cons.prems have rest: "\<forall>r \<in> set routes. \<exists>s. score w r = Inr s \<and> s \<noteq> NaN" by simp
  show ?case
  proof (cases "fgt s bs")
    case True
    then have step: "select_loop w (r # routes) (bs, br) = select_loop w routes (s, Some r)"
      using s by simp
    from Cons.IH [OF rest s(2), of "Some r"] show ?thesis
    proof (elim disjE exE conjE)
      assume kept: "select_loop w routes (s, Some r) = Inr (s, Some r)"
        and le: "\<forall>x \<in> set routes. \<exists>t. score w x = Inr t \<and> fle t s"
      have "r # routes = [] @ r # routes \<and>
            select_loop w (r # routes) (bs, br) = Inr (s, Some r) \<and>
            score w r = Inr s \<and> fgt s bs \<and>
            (\<forall>x \<in> set []. \<exists>t. score w x = Inr t \<and> fgt s t) \<and>
            (\<forall>x \<in> set routes. \<exists>t. score w x = Inr t \<and> fle t s)"
        using kept le s True step by simp
      then show ?thesis by (intro disjI2 exI)
    next
      fix pre b post s'
      assume dec: "routes = pre @ b # post"
        and res: "select_loop w routes (s, Some r) = Inr (s', Some b)"
        and sb: "score w b = Inr s'" and gt: "fgt s' s"
        and before: "\<forall>x \<in> set pre. \<exists>t. score w x = Inr t \<and> fgt s' t"
        and after: "\<forall>x \<in> set post. \<exists>t. score w x = Inr t \<and> fle t s'"
      have "fgt s' bs" using gt True by (rule fgt_trans)
      then have "r # routes = (r # pre) @ b # post \<and>
            select_loop w (r # routes) (bs, br) = Inr (s', Some b) \<and>
            score w b = Inr s' \<and> fgt s' bs \<and>
            (\<forall>x \<in> set (r # pre). \<exists>t. score w x = Inr t \<and> fgt s' t) \<and>
            (\<forall>x \<in> set post. \<exists>t. score w x = Inr t \<and> fle t s')"
        using dec res sb gt before after s step by simp
      then show ?thesis by (intro disjI2 exI)
    qed
  next
    case False
    then have step: "select_loop w (r # routes) (bs, br) = select_loop w routes (bs, br)"
      using s by simp
    have s_le: "fle s bs" using s(2) Cons.prems(2) False by (rule not_fgt_fle)
    from Cons.IH [OF rest Cons.prems(2), of br] show ?thesis
    proof (elim disjE exE conjE)
      assume kept: "select_loop w routes (bs, br) = Inr (bs, br)"
        and le: "\<forall>x \<in> set routes. \<exists>t. score w x = Inr t \<and> fle t bs"
      from le s s_le have "\<forall>x \<in> set (r # routes). \<exists>t. score w x = Inr t \<and> fle t bs"
        by simp
      with kept step show ?thesis by (intro disjI1 conjI) simp_all
    next
      fix pre b post s'
      assume dec: "routes = pre @ b # post"
        and res: "select_loop w routes (bs, br) = Inr (s', Some b)"
        and sb: "score w b = Inr s'" and gt: "fgt s' bs"
        and before: "\<forall>x \<in> set pre. \<exists>t. score w x = Inr t \<and> fgt s' t"
        and after: "\<forall>x \<in> set post. \<exists>t. score w x = Inr t \<and> fle t s'"
      have "fgt s' s" using gt s_le by (rule fgt_fle_trans)
      then have "r # routes = (r # pre) @ b # post \<and>
            select_loop w (r # routes) (bs, br) = Inr (s', Some b) \<and>
            score w b = Inr s' \<and> fgt s' bs \<and>
            (\<forall>x \<in> set (r # pre). \<exists>t. score w x = Inr t \<and> fgt s' t) \<and>
            (\<forall>x \<in> set post. \<exists>t. score w x = Inr t \<and> fle t s')"
        using dec res sb gt before after s step by simp
      then show ?thesis by (intro disjI2 exI)
    qed
  qed
qed

text \<open>
  Rounding decides a selection: the routes X (time 10, cost 10) and Y (time 30, cost 5)
  both score 1/10 in exact arithmetic, but the doubles are \<^verbatim>\<open>0.1\<close> and
  \<^verbatim>\<open>0.10000000000000002\<close>, and the scan returns Y.
\<close>

lemma select_best_rounding_decides:
  "select_best
     [\<lparr>route = ''Route X'', distance = PInt 2, time = PInt 10, cost = Some (PInt 10),
        score_time = None, feasible = None\<rparr>,
      \<lparr>route = ''Route Y'', distance = PInt 1, time = PInt 30, cost = Some (PInt 5),
        score_time = None, feasible = None\<rparr>]
     \<lparr>time_weight = round_double (6 / 10), cost_weight = round_double (4 / 10)\<rparr> =
   Inr (Some \<lparr>route = ''Route Y'', distance = PInt 1, time = PInt 30, cost = Some (PInt 5),
               score_time = None, feasible = None\<rparr>)"
  by (simp add: select_best_def score_def round_double_eval)

subsection \<open>Decision fusion picks the first candidate of greatest score\<close>

text \<open>
  Claim C1, as the claim states it, fails: it puts no condition on the weights, and under
  the weights \<^verbatim>\<open>-2.0\<close> and \<^verbatim>\<open>-2.0\<close> a single route of time 1 and cost 1 scores
  \<^verbatim>\<open>-4.0\<close>, which never exceeds the initial best score \<^verbatim>\<open>-1\<close>: the selection is
  \<^verbatim>\<open>None\<close>.
\<close>

theorem select_best_negative_weights_counterexample:
  "select_best
     [\<lparr>route = ''Route P'', distance = PInt 1, time = PInt 1, cost = Some (PInt 1),
        score_time = Some (Fin 1), feasible = Some True\<rparr>]
     \<lparr>time_weight = Fin (- 2), cost_weight = Fin (- 2)\<rparr> = Inr None"
  by (simp add: select_best_def score_def round_double_eval)

text \<open>
  A weight of zero is excluded below as well: \<^verbatim>\<open>0.0 * inf\<close> is \<^verbatim>\<open>nan\<close>, which no
  comparison exceeds.
\<close>

lemma select_best_zero_weight_nan:
  "select_best
     [\<lparr>route = ''Route S'', distance = PInt 1, time = PFloat (Fin (1 / 2 ^ 1074)),
        cost = Some (PInt 1), score_time = None, feasible = None\<rparr>]
     \<lparr>time_weight = Fin 0, cost_weight = Fin 1\<rparr> = Inr None"
  by (simp add: select_best_def score_def round_double_eval)

text \<open>
  Claim C1, amended. Take a non-empty route list in which every route has a positive time
  and a positive cost, and two finite weights greater than zero (as both results of
  preference interpretation are). Then the score of every route is the float
  \<^verbatim>\<open>time_weight * (1 / time) + cost_weight * (1 / cost)\<close>, and \<open>select_best\<close> returns a
  route \<open>b\<close> of the list such that every route before it scores strictly less and every
  route after it scores at most as much: the greatest score, and among equal scores the
  first in the input order.
\<close>

theorem select_best_first_greatest:
  assumes nonempty: "routes \<noteq> []"
    and positive: "\<forall>r \<in> set routes. py_positive (time r) \<and> (\<exists>c. cost r = Some c \<and> py_positive c)"
    and time_weight: "time_weight w = Fin a" "0 < a"
    and cost_weight: "cost_weight w = Fin b" "0 < b"
  shows "(\<forall>r \<in> set routes. \<exists>c qt qc. cost r = Some c \<and>
            one_over (time r) = Inr qt \<and> one_over c = Inr qc \<and>
            score w r = Inr (fadd (fmul (time_weight w) qt) (fmul (cost_weight w) qc))) \<and>
         (\<exists>pre b post s. routes = pre @ b # post \<and>
            select_best routes w = Inr (Some b) \<and> score w b = Inr s \<and>
            (\<forall>r \<in> set pre. \<exists>t. score w r = Inr t \<and> fgt s t) \<and>
            (\<forall>r \<in> set post. \<exists>t. score w r = Inr t \<and> fle t s))"
proof
  have each: "\<exists>c qt qc. cost r = Some c \<and> one_over (time r) = Inr qt \<and> one_over c = Inr qc \<and>
            score w r = Inr (fadd (fmul (time_weight w) qt) (fmul (cost_weight w) qc)) \<and>
            fle (Fin 0) (fadd (fmul (time_weight w) qt) (fmul (cost_weight w) qc))"
    if "r \<in> set routes" for r
  proof -
    from positive that obtain c where c: "py_positive (time r)" "cost r = Some c" "py_positive c"
      by blast
    from score_nonneg [OF c time_weight cost_weight] c(2) show ?thesis by blast
  qed
  from each show "\<forall>r \<in> set routes. \<exists>c qt qc. cost r = Some c \<and>
            one_over (time r) = Inr qt \<and> one_over c = Inr qc \<and>
            score w r = Inr (fadd (fmul (time_weight w) qt) (fmul (cost_weight w) qc))"
    by blast
  from each have nonneg: "\<forall>r \<in> set routes. \<exists>s. score w r = Inr s \<and> fle (Fin 0) s"
    by blast
  then have defined: "\<forall>r \<in> set routes. \<exists>s. score w r = Inr s \<and> s \<noteq> NaN"
    using fle_not_NaN by blast
  from nonempty obtain r0 where r0: "r0 \<in> set routes" by (cases routes) auto
  with nonneg obtain s0 where s0: "score w r0 = Inr s0" "fle (Fin 0) s0" by blast
  from s0(2) have beats: "fgt s0 (Fin (- 1))" by (rule fle_zero_fgt_minus_one)
  have "\<not> (\<forall>r \<in> set routes. \<exists>t. score w r = Inr t \<and> fle t (Fin (- 1)))"
  proof
    assume "\<forall>r \<in> set routes. \<exists>t. score w r = Inr t \<and> fle t (Fin (- 1))"
    with r0 s0(1) have "fle s0 (Fin (- 1))" by fastforce
    with beats show False by (cases s0) auto
  qed
  moreover have "(Fin (- 1)) \<noteq> NaN" by simp
  note select_loop_scan [OF defined this, of None]
  ultimately obtain pre b post s where
    "routes = pre @ b # post" "select_loop w routes (Fin (- 1), None) = Inr (s, Some b)"
    "score w b = Inr s"
    "\<forall>r \<in> set pre. \<exists>t. score w r = Inr t \<and> fgt s t"
    "\<forall>r \<in> set post. \<exists>t. score w r = Inr t \<and> fle t s"
    by blast
  then have "routes = pre @ b # post \<and>
            select_best routes w = Inr (Some b) \<and> score w b = Inr s \<and>
            (\<forall>r \<in> set pre. \<exists>t. score w r = Inr t \<and> fgt s t) \<and>
            (\<forall>r \<in> set post. \<exists>t. score w r = Inr t \<and> fle t s)"
    by (simp add: select_best_def)
  then show "\<exists>pre b post s. routes = pre @ b # post \<and>
            select_best routes w = Inr (Some b) \<and> score w b = Inr s \<and>
            (\<forall>r \<in> set pre. \<exists>t. score w r = Inr t \<and> fgt s t) \<and>
            (\<forall>r \<in> set post. \<exists>t. score w r = Inr t \<and> fle t s)"
    by (intro exI)
qed

theorem select_best_first_greatest_witness:
  "select_best
     [ \<lparr>route = ''Route L'', distance = PInt 8, time = PInt 40, cost = Some (PInt 40),
          score_time = None, feasible = None\<rparr>,
       \<lparr>route = ''Route T1'', distance = PInt 4, time = PInt 10, cost = Some (PInt 20),
          score_time = None, feasible = None\<rparr>,
       \<lparr>route = ''Route T2'', distance = PInt 4, time = PInt 10, cost = Some (PInt 20),
          score_time = None, feasible = None\<rparr> ]
     \<lparr>time_weight = Fin (5404319552844595 / 9007199254740992),
       cost_weight = Fin (3602879701896397 / 9007199254740992)\<rparr> =
     Inr (Some \<lparr>route = ''Route T1'', distance = PInt 4, time = PInt 10, cost = Some (PInt 20),
                 score_time = None, feasible = None\<rparr>) \<and>
   (\<exists>pre b post s.
      [ \<lparr>route = ''Route L'', distance = PInt 8, time = PInt 40, cost = Some (PInt 40),
           score_time = None, feasible = None\<rparr>,
        \<lparr>route = ''Route T1'', distance = PInt 4, time = PInt 10, cost = Some (PInt 20),
           score_time = None, feasible = None\<rparr>,
        \<lparr>route = ''Route T2'', distance = PInt 4, time = PInt 10, cost = Some (PInt 20),
           score_time = None, feasible = None\<rparr> ] = pre @ b # post \<and>
      select_best
        [ \<lparr>route = ''Route L'', distance = PInt 8, time = PInt 40, cost = Some (PInt 40),
             score_time = None, feasible = None\<rparr>,
          \<lparr>route = ''Route T1'', distance = PInt 4, time = PInt 10, cost = Some (PInt 20),
             score_time = None, feasible = None\<rparr>,
          \<lparr>route = ''Route T2'', distance = PInt 4, time = PInt 10, cost = Some (PInt 20),
             score_time = None, feasible = None\<rparr> ]
        \<lparr>time_weight = Fin (5404319552844595 / 9007199254740992),
          cost_weight = Fin (3602879701896397 / 9007199254740992)\<rparr> = Inr (Some b) \<and>
      score \<lparr>time_weight = Fin (5404319552844595 / 9007199254740992),
              cost_weight = Fin (3602879701896397 / 9007199254740992)\<rparr> b = Inr s \<and>
      (\<forall>r \<in> set pre. \<exists>t.
          score \<lparr>time_weight = Fin (5404319552844595 / 9007199254740992),
                  cost_weight = Fin (3602879701896397 / 9007199254740992)\<rparr> r = Inr t \<and>
          fgt s t) \<and>
      (\<forall>r \<in> set post. \<exists>t.
          score \<lparr>time_weight = Fin (5404319552844595 / 9007199254740992),
                  cost_weight = Fin (3602879701896397 / 9007199254740992)\<rparr> r = Inr t \<and>
          fle t s))"
  (is "select_best ?rs ?w = Inr (Some ?t1) \<and> ?dec")
proof -
  have nonempty: "?rs \<noteq> []" by simp
  have positive: "\<forall>r \<in> set ?rs. py_positive (time r) \<and> (\<exists>c. cost r = Some c \<and> py_positive c)"
    by simp
  have tw: "time_weight ?w = Fin (5404319552844595 / 9007199254740992)"
    and tw_pos: "(0::rat) < 5404319552844595 / 9007199254740992"
    and cw: "cost_weight ?w = Fin (3602879701896397 / 9007199254740992)"
    and cw_pos: "(0::rat) < 3602879701896397 / 9007199254740992"
    by simp_all
  have sel: "select_best ?rs ?w = Inr (Some ?t1)"
    by (simp add: select_best_def score_def round_double_eval)
  from select_best_first_greatest [OF nonempty positive tw tw_pos cw cw_pos]
  have ?dec by (rule conjunct2)
  with sel show ?thesis by (intro conjI)
qed

subsection \<open>The run of the driver\<close>

text \<open>
  Claim C2. With priority \<open>fast\<close> and the fixed routes A (10, 20), B (14, 15) and
  C (8, 25), the weights are the floats 0.6 and 0.4, the costs 50, 70 and 40, the time
  scores the floats 0.05, 1/15 and 0.04, and the driver's selection is Route B.
\<close>

theorem run_planit_scenario_A:
  "PreferenceAgent_process the_user_input =
     \<lparr>time_weight = round_double (6 / 10), cost_weight = round_double (4 / 10)\<rparr> \<and>
   map route (RouteAgent_process the_user_input) = [''Route A'', ''Route B'', ''Route C''] \<and>
   map distance (RouteAgent_process the_user_input) = [PInt 10, PInt 14, PInt 8] \<and>
   map time (RouteAgent_process the_user_input) = [PInt 20, PInt 15, PInt 25] \<and>
   map cost (CostAgent_process (RouteAgent_process the_user_input)) =
     [Some (PInt 50), Some (PInt 70), Some (PInt 40)] \<and>
   TimeAgent_process (CostAgent_process (RouteAgent_process the_user_input)) =
     Inr [ \<lparr>route = ''Route A'', distance = PInt 10, time = PInt 20, cost = Some (PInt 50),
              score_time = Some (round_double (5 / 100)), feasible = None\<rparr>,
           \<lparr>route = ''Route B'', distance = PInt 14, time = PInt 15, cost = Some (PInt 70),
              score_time = Some (round_double (1 / 15)), feasible = None\<rparr>,
           \<lparr>route = ''Route C'', distance = PInt 8, time = PInt 25, cost = Some (PInt 40),
              score_time = Some (round_double (4 / 100)), feasible = None\<rparr> ] \<and>
   priority the_user_input = ''fast'' \<and>
   run_planit =
     Inr (Some \<lparr>route = ''Route B'', distance = PInt 14, time = PInt 15, cost = Some (PInt 70),
                 score_time = Some (round_double (1 / 15)), feasible = Some True\<rparr>)"
  by (simp add: run_planit_def pipeline_def the_user_input_def PreferenceAgent_process_def
        RouteAgent_process_def select_best_def score_def round_double_eval)

subsection \<open>Preference interpretation\<close>

text \<open>
  Claim C3. For every user input the weights are the floats 0.6 for time and 0.4 for cost
  when the priority is \<open>fast\<close>, and 0.4 for time and 0.6 for cost for every other
  priority; in both cases their float sum is 1.0.
\<close>

theorem PreferenceAgent_process_weights:
  "(priority u = ''fast'' \<longrightarrow>
      time_weight (PreferenceAgent_process u) = round_double (6 / 10) \<and>
      cost_weight (PreferenceAgent_process u) = round_double (4 / 10)) \<and>
   (priority u \<noteq> ''fast'' \<longrightarrow>
      time_weight (PreferenceAgent_process u) = round_double (4 / 10) \<and>
      cost_weight (PreferenceAgent_process u) = round_double (6 / 10)) \<and>
   fadd (time_weight (PreferenceAgent_process u)) (cost_weight (PreferenceAgent_process u)) =
     Fin 1"
  by (simp add: PreferenceAgent_process_def round_double_eval)

theorem PreferenceAgent_process_weights_witness:
  "PreferenceAgent_process \<lparr>source = ''Location A'', destination = ''Location B'', priority = ''fast''\<rparr>
     = \<lparr>time_weight = round_double (6 / 10), cost_weight = round_double (4 / 10)\<rparr> \<and>
   PreferenceAgent_process \<lparr>source = ''Location A'', destination = ''Location B'', priority = ''cheap''\<rparr>
     = \<lparr>time_weight = round_double (4 / 10), cost_weight = round_double (6 / 10)\<rparr> \<and>
   PreferenceAgent_process \<lparr>source = ''Location A'', destination = ''Location B'', priority = ''scenic''\<rparr>
     = \<lparr>time_weight = round_double (4 / 10), cost_weight = round_double (6 / 10)\<rparr>"
  using PreferenceAgent_process_weights
          [of "\<lparr>source = ''Location A'', destination = ''Location B'', priority = ''fast''\<rparr>"]
        PreferenceAgent_process_weights
          [of "\<lparr>source = ''Location A'', destination = ''Location B'', priority = ''cheap''\<rparr>"]
        PreferenceAgent_process_weights
          [of "\<lparr>source = ''Location A'', destination = ''Location B'', priority = ''scenic''\<rparr>"]
  by (simp add: weights.equality)

subsection \<open>Cost estimation\<close>

text \<open>
  Claim C4, as the claim states it, fails on a float distance whose fivefold is not a
  double: for the distance \<^verbatim>\<open>10000000000000002.0\<close> the product \<^verbatim>\<open>distance * 5\<close> is
  the float \<^verbatim>\<open>50000000000000008.0\<close>, not 50000000000000010.
\<close>

theorem CostAgent_process_float_counterexample:
  "CostAgent_process
     [\<lparr>route = ''Route F'', distance = PFloat (Fin 10000000000000002), time = PInt 20,
        cost = None, score_time = None, feasible = None\<rparr>] =
     [\<lparr>route = ''Route F'', distance = PFloat (Fin 10000000000000002), time = PInt 20,
        cost = Some (PFloat (Fin 50000000000000008)), score_time = None, feasible = None\<rparr>] \<and>
   (50000000000000008 :: rat) \<noteq> 5 * 10000000000000002"
  by (simp add: round_double_eval)

text \<open>
  Claim C4, amended. Cost estimation keeps the length of the route list, and the cost it
  stores in the route at each position is Python's product \<^verbatim>\<open>distance * 5\<close> of the
  route at that position: the \<^verbatim>\<open>int\<close> \<open>5 * d\<close> exactly for an \<^verbatim>\<open>int\<close> distance \<open>d\<close>,
  and the double nearest to \<open>5 * v\<close> for a finite float distance of value \<open>v\<close>.
\<close>

theorem CostAgent_process_cost:
  "length (CostAgent_process routes) = length routes \<and>
   (\<forall>i < length routes.
      cost (CostAgent_process routes ! i) = Some (times_5 (distance (routes ! i))) \<and>
      (\<forall>d. distance (routes ! i) = PInt d \<longrightarrow>
         cost (CostAgent_process routes ! i) = Some (PInt (5 * d))) \<and>
      (\<forall>v. distance (routes ! i) = PFloat (Fin v) \<longrightarrow>
         cost (CostAgent_process routes ! i) = Some (PFloat (round_double (5 * v)))))"
  by (simp add: CostAgent_process_map mult.commute)

theorem CostAgent_process_cost_witness:
  "cost (CostAgent_process (RouteAgent_process the_user_input) ! 0) = Some (PInt 50) \<and>
   cost (CostAgent_process (RouteAgent_process the_user_input) ! 1) = Some (PInt 70) \<and>
   cost (CostAgent_process (RouteAgent_process the_user_input) ! 2) = Some (PInt 40) \<and>
   cost (CostAgent_process
           [\<lparr>route = ''Route F'', distance = PFloat (Fin (5 / 2)), time = PInt 20,
              cost = None, score_time = None, feasible = None\<rparr>] ! 0) =
     Some (PFloat (Fin (25 / 2)))"
  using CostAgent_process_cost [of "RouteAgent_process the_user_input"]
    CostAgent_process_cost
      [of "[\<lparr>route = ''Route F'', distance = PFloat (Fin (5 / 2)), time = PInt 20,
              cost = None, score_time = None, feasible = None\<rparr>]"]
  by (simp add: RouteAgent_process_def round_double_eval)

subsection \<open>Time evaluation\<close>

text \<open>
  Claim C5, as the claim states it, fails on a negative time: time evaluation of a route
  of time \<open>- 5\<close> raises nothing and stores the float \<^verbatim>\<open>-0.2\<close>.
\<close>

theorem TimeAgent_process_negative_counterexample:
  "TimeAgent_process
     [\<lparr>route = ''Route N'', distance = PInt 10, time = PInt (- 5), cost = Some (PInt 50),
        score_time = None, feasible = None\<rparr>] =
   Inr [\<lparr>route = ''Route N'', distance = PInt 10, time = PInt (- 5), cost = Some (PInt 50),
          score_time = Some (Fin (- 3602879701896397 / 18014398509481984)), feasible = None\<rparr>]"
  by (simp add: round_double_eval)

text \<open>
  Claim C5, amended. When no route has time zero (positive and negative times alike),
  time evaluation raises nothing and returns a list of the same length whose route at
  each position has as time score Python's float quotient \<^verbatim>\<open>1 / time\<close>: the double
  nearest to the exact quotient, which is \<^verbatim>\<open>0.0\<close> or \<^verbatim>\<open>inf\<close> when the quotient leaves
  the range of the doubles, \<^verbatim>\<open>0.0\<close> for an infinite time and \<^verbatim>\<open>nan\<close> for \<^verbatim>\<open>nan\<close>. When
  some route has time zero, it raises Python's own \<^verbatim>\<open>ZeroDivisionError\<close>.
\<close>

theorem TimeAgent_process_score_time:
  "((\<forall>r \<in> set routes. \<not> py_zero (time r)) \<longrightarrow>
      (\<exists>routes'. TimeAgent_process routes = Inr routes' \<and> length routes' = length routes \<and>
         (\<forall>i < length routes.
            (\<forall>n. time (routes ! i) = PInt n \<longrightarrow>
               score_time (routes' ! i) = Some (round_double (1 / of_int n))) \<and>
            (\<forall>v. time (routes ! i) = PFloat (Fin v) \<longrightarrow>
               score_time (routes' ! i) = Some (round_double (1 / v))) \<and>
            (time (routes ! i) = PFloat PosInf \<or> time (routes ! i) = PFloat NegInf \<longrightarrow>
               score_time (routes' ! i) = Some (Fin 0)) \<and>
            (time (routes ! i) = PFloat NaN \<longrightarrow> score_time (routes' ! i) = Some NaN)))) \<and>
   ((\<exists>r \<in> set routes. py_zero (time r)) \<longrightarrow> TimeAgent_process routes = Inl ZeroDivisionError)"
proof (intro conjI impI)
  assume "\<forall>r \<in> set routes. \<not> py_zero (time r)"
  from TimeAgent_process_nonzero [OF this] obtain routes' where
    run: "TimeAgent_process routes = Inr routes'"
    and rel: "list_all2 (\<lambda>r r'. \<exists>q. one_over (time r) = Inr q \<and> r' = r\<lparr>score_time := Some q\<rparr>)
                routes routes'"
    by blast
  from rel have len: "length routes' = length routes" by (simp add: list_all2_lengthD)
  have "(\<forall>n. time (routes ! i) = PInt n \<longrightarrow>
               score_time (routes' ! i) = Some (round_double (1 / of_int n))) \<and>
            (\<forall>v. time (routes ! i) = PFloat (Fin v) \<longrightarrow>
               score_time (routes' ! i) = Some (round_double (1 / v))) \<and>
            (time (routes ! i) = PFloat PosInf \<or> time (routes ! i) = PFloat NegInf \<longrightarrow>
               score_time (routes' ! i) = Some (Fin 0)) \<and>
            (time (routes ! i) = PFloat NaN \<longrightarrow> score_time (routes' ! i) = Some NaN)"
    if "i < length routes" for i
  proof -
    from rel that obtain q where q: "one_over (time (routes ! i)) = Inr q"
      and upd: "routes' ! i = (routes ! i)\<lparr>score_time := Some q\<rparr>"
      by (auto dest: list_all2_nthD)
    from q upd show ?thesis by (auto split: if_splits)
  qed
  with run len show "\<exists>routes'. TimeAgent_process routes = Inr routes' \<and>
         length routes' = length routes \<and>
         (\<forall>i < length routes.
            (\<forall>n. time (routes ! i) = PInt n \<longrightarrow>
               score_time (routes' ! i) = Some (round_double (1 / of_int n))) \<and>
            (\<forall>v. time (routes ! i) = PFloat (Fin v) \<longrightarrow>
               score_time (routes' ! i) = Some (round_double (1 / v))) \<and>
            (time (routes ! i) = PFloat PosInf \<or> time (routes ! i) = PFloat NegInf \<longrightarrow>
               score_time (routes' ! i) = Some (Fin 0)) \<and>
            (time (routes ! i) = PFloat NaN \<longrightarrow> score_time (routes' ! i) = Some NaN))"
    by blast
next
  assume "\<exists>r \<in> set routes. py_zero (time r)"
  then show "TimeAgent_process routes = Inl ZeroDivisionError" by (rule TimeAgent_process_zero)
qed

theorem TimeAgent_process_score_time_witness:
  "(\<exists>routes'.
      TimeAgent_process
        [\<lparr>route = ''Route P'', distance = PInt 10, time = PInt 3, cost = Some (PInt 50),
           score_time = None, feasible = None\<rparr>,
         \<lparr>route = ''Route N'', distance = PInt 10, time = PInt (- 5), cost = Some (PInt 50),
           score_time = None, feasible = None\<rparr>,
         \<lparr>route = ''Route S'', distance = PInt 10, time = PFloat (Fin (1 / 2 ^ 1074)),
           cost = Some (PInt 50), score_time = None, feasible = None\<rparr>] = Inr routes' \<and>
      length routes' = 3 \<and>
      score_time (routes' ! 0) = Some (Fin (6004799503160661 / 18014398509481984)) \<and>
      score_time (routes' ! 1) = Some (Fin (- 3602879701896397 / 18014398509481984)) \<and>
      score_time (routes' ! 2) = Some PosInf) \<and>
   TimeAgent_process
     [\<lparr>route = ''Route P'', distance = PInt 10, time = PInt 3, cost = Some (PInt 50),
        score_time = None, feasible = None\<rparr>,
      \<lparr>route = ''Route Z'', distance = PInt 10, time = PFloat (Fin 0), cost = Some (PInt 50),
        score_time = None, feasible = None\<rparr>] = Inl ZeroDivisionError"
  (is "(\<exists>routes'. TimeAgent_process ?ok = Inr routes' \<and> ?values routes') \<and>
       TimeAgent_process ?bad = Inl ZeroDivisionError")
proof
  have nonzero: "\<forall>r \<in> set ?ok. \<not> py_zero (time r)" by simp
  from TimeAgent_process_score_time [of ?ok, THEN conjunct1, THEN mp, OF nonzero]
  obtain routes' where run: "TimeAgent_process ?ok = Inr routes'"
    and len: "length routes' = length ?ok"
    and each: "\<forall>i < length ?ok.
            (\<forall>n. time (?ok ! i) = PInt n \<longrightarrow>
               score_time (routes' ! i) = Some (round_double (1 / of_int n))) \<and>
            (\<forall>v. time (?ok ! i) = PFloat (Fin v) \<longrightarrow>
               score_time (routes' ! i) = Some (round_double (1 / v))) \<and>
            (time (?ok ! i) = PFloat PosInf \<or> time (?ok ! i) = PFloat NegInf \<longrightarrow>
               score_time (routes' ! i) = Some (Fin 0)) \<and>
            (time (?ok ! i) = PFloat NaN \<longrightarrow> score_time (routes' ! i) = Some NaN)"
    by blast
  have i0: "0 < length ?ok" and i1: "1 < length ?ok" and i2: "2 < length ?ok" by simp_all
  have t0: "time (?ok ! 0) = PInt 3" and t1: "time (?ok ! 1) = PInt (- 5)"
    and t2: "time (?ok ! 2) = PFloat (Fin (1 / 2 ^ 1074))" by simp_all
  have "score_time (routes' ! 0) = Some (round_double (1 / of_int 3))"
    by (rule each [THEN spec, THEN mp, OF i0, THEN conjunct1, THEN spec, THEN mp, OF t0])
  then have v0: "score_time (routes' ! 0) = Some (Fin (6004799503160661 / 18014398509481984))"
    by (simp add: round_double_eval)
  have "score_time (routes' ! 1) = Some (round_double (1 / of_int (- 5)))"
    by (rule each [THEN spec, THEN mp, OF i1, THEN conjunct1, THEN spec, THEN mp, OF t1])
  then have v1: "score_time (routes' ! 1) = Some (Fin (- 3602879701896397 / 18014398509481984))"
    by (simp add: round_double_eval)
  have "score_time (routes' ! 2) = Some (round_double (1 / (1 / 2 ^ 1074)))"
    by (rule each [THEN spec, THEN mp, OF i2, THEN conjunct2, THEN conjunct1, THEN spec,
          THEN mp, OF t2])
  then have v2: "score_time (routes' ! 2) = Some PosInf"
    by (simp add: round_double_eval)
  from len have "length routes' = 3" by simp
  with run v0 v1 v2 show "\<exists>routes'. TimeAgent_process ?ok = Inr routes' \<and> ?values routes'"
    by blast
next
  have zero: "\<exists>r \<in> set ?bad. py_zero (time r)" by simp
  show "TimeAgent_process ?bad = Inl ZeroDivisionError"
    by (rule TimeAgent_process_score_time [of ?bad, THEN conjunct2, THEN mp, OF zero])
qed

subsection \<open>Fusion of an empty route list\<close>

text \<open>
  Claim C6, as the claim states it, fails: on the empty list \<open>select_best\<close> raises
  nothing and returns \<^verbatim>\<open>None\<close>.
\<close>

theorem select_best_empty_counterexample:
  "select_best [] \<lparr>time_weight = round_double (6 / 10), cost_weight = round_double (4 / 10)\<rparr> =
   Inr None"
  by (simp add: select_best_def)

text \<open>
  Claim C6, amended. On the empty route list \<open>select_best\<close> returns \<^verbatim>\<open>None\<close>, for all
  weights, and raises no error.
\<close>

theorem select_best_empty: "select_best [] w = Inr None"
  by (simp add: select_best_def)

subsection \<open>What each annotation stage leaves alone\<close>

text \<open>
  Claim C7. Each of the three stages returns a list that matches its input position by
  position (so the number and the order of the routes are kept), and at each position
  only the stage's own field may differ: \<open>cost\<close> for cost estimation, \<open>score_time\<close> for
  time evaluation (when it returns), \<open>feasible\<close> for the feasibility check.
\<close>

theorem stages_frame:
  "list_all2 (\<lambda>r r'. route r' = route r \<and> distance r' = distance r \<and> time r' = time r \<and>
                       score_time r' = score_time r \<and> feasible r' = feasible r)
     routes (CostAgent_process routes) \<and>
   (\<forall>routes'. TimeAgent_process routes = Inr routes' \<longrightarrow>
      list_all2 (\<lambda>r r'. route r' = route r \<and> distance r' = distance r \<and> time r' = time r \<and>
                          cost r' = cost r \<and> feasible r' = feasible r)
        routes routes') \<and>
   list_all2 (\<lambda>r r'. route r' = route r \<and> distance r' = distance r \<and> time r' = time r \<and>
                       cost r' = cost r \<and> score_time r' = score_time r)
     routes (ResourceAgent_process routes)"
proof (intro conjI allI impI)
  show "list_all2 (\<lambda>r r'. route r' = route r \<and> distance r' = distance r \<and> time r' = time r \<and>
                       score_time r' = score_time r \<and> feasible r' = feasible r)
     routes (CostAgent_process routes)"
    by (simp add: CostAgent_process_map list_all2_map2 list_all2_same)
next
  fix routes' assume "TimeAgent_process routes = Inr routes'"
  then have "list_all2 (\<lambda>r r'. \<exists>q. one_over (time r) = Inr q \<and> r' = r\<lparr>score_time := Some q\<rparr>)
                routes routes'"
    by (rule TimeAgent_process_Inr)
  then show "list_all2 (\<lambda>r r'. route r' = route r \<and> distance r' = distance r \<and> time r' = time r \<and>
                          cost r' = cost r \<and> feasible r' = feasible r) routes routes'"
    by (rule list_all2_mono) auto
next
  show "list_all2 (\<lambda>r r'. route r' = route r \<and> distance r' = distance r \<and> time r' = time r \<and>
                       cost r' = cost r \<and> score_time r' = score_time r)
     routes (ResourceAgent_process routes)"
    by (simp add: ResourceAgent_process_map list_all2_map2 list_all2_same)
qed

theorem stages_frame_witness:
  "TimeAgent_process
     [\<lparr>route = ''Route A'', distance = PInt 10, time = PInt 20, cost = Some (PInt 50),
        score_time = None, feasible = None\<rparr>,
      \<lparr>route = ''Route B'', distance = PInt 14, time = PInt 15, cost = Some (PInt 70),
        score_time = None, feasible = None\<rparr>] =
   Inr [\<lparr>route = ''Route A'', distance = PInt 10, time = PInt 20, cost = Some (PInt 50),
          score_time = Some (round_double (1 / 20)), feasible = None\<rparr>,
        \<lparr>route = ''Route B'', distance = PInt 14, time = PInt 15, cost = Some (PInt 70),
          score_time = Some (round_double (1 / 15)), feasible = None\<rparr>] \<and>
   list_all2 (\<lambda>r r'. route r' = route r \<and> distance r' = distance r \<and> time r' = time r \<and>
                       cost r' = cost r \<and> feasible r' = feasible r)
     [\<lparr>route = ''Route A'', distance = PInt 10, time = PInt 20, cost = Some (PInt 50),
        score_time = None, feasible = None\<rparr>,
      \<lparr>route = ''Route B'', distance = PInt 14, time = PInt 15, cost = Some (PInt 70),
        score_time = None, feasible = None\<rparr>]
     [\<lparr>route = ''Route A'', distance = PInt 10, time = PInt 20, cost = Some (PInt 50),
        score_time = Some (round_double (1 / 20)), feasible = None\<rparr>,
      \<lparr>route = ''Route B'', distance = PInt 14, time = PInt 15, cost = Some (PInt 70),
        score_time = Some (round_double (1 / 15)), feasible = None\<rparr>]"
  (is "TimeAgent_process ?R = Inr ?R' \<and> ?frame")
proof -
  have run: "TimeAgent_process ?R = Inr ?R'" by simp
  have ?frame
    by (rule stages_frame [of ?R, THEN conjunct2, THEN conjunct1, rule_format, OF run])
  with run show ?thesis by (rule conjI)
qed

subsection \<open>Fusion does not read the feasibility flag\<close>

text \<open>
  Two routes that agree on every field but \<open>feasible\<close> have the same score, error
  or number; the scan over two lists that agree in this way, from the same best score,
  ends the same way on both.
\<close>

lemma score_feasible:
  assumes "route r' = route r \<and> distance r' = distance r \<and> time r' = time r \<and>
           cost r' = cost r \<and> score_time r' = score_time r"
  shows "score w r' = score w r"
proof -
  from assms have "time r' = time r" and "cost r' = cost r" by simp_all
  then show ?thesis by (simp add: score_def split: sum.splits option.splits)
qed

lemma select_loop_feasible:
  assumes "list_all2 (\<lambda>r r'. route r' = route r \<and> distance r' = distance r \<and>
                       time r' = time r \<and> cost r' = cost r \<and> score_time r' = score_time r)
             routes1 routes2"
  shows "(\<exists>e. select_loop w routes1 (bs, br1) = Inl e \<and> select_loop w routes2 (bs, br2) = Inl e) \<or>
         (select_loop w routes1 (bs, br1) = Inr (bs, br1) \<and>
          select_loop w routes2 (bs, br2) = Inr (bs, br2)) \<or>
         (\<exists>i s. i < length routes1 \<and>
            select_loop w routes1 (bs, br1) = Inr (s, Some (routes1 ! i)) \<and>
            select_loop w routes2 (bs, br2) = Inr (s, Some (routes2 ! i)) \<and>
            score w (routes1 ! i) = Inr s \<and> score w (routes2 ! i) = Inr s)"
  using assms
proof (induction routes1 routes2 arbitrary: bs br1 br2 rule: list_all2_induct)
  case Nil
  then show ?case by simp
next
  case (Cons r routes1 r' routes2)
  from Cons.hyps(1) have same: "score w r' = score w r" by (rule score_feasible)
  show ?case
  proof (cases "score w r")
    case (Inl e)
    with same show ?thesis by simp
  next
    case (Inr s)
    show ?thesis
    proof (cases "fgt s bs")
      case True
      then have step1: "select_loop w (r # routes1) (bs, br1) = select_loop w routes1 (s, Some r)"
        and step2: "select_loop w (r' # routes2) (bs, br2) = select_loop w routes2 (s, Some r')"
        using Inr same by simp_all
      from Cons.IH [of s "Some r" "Some r'"] show ?thesis
      proof (elim disjE exE conjE)
        fix e
        assume "select_loop w routes1 (s, Some r) = Inl e"
          "select_loop w routes2 (s, Some r') = Inl e"
        with step1 step2 show ?thesis by simp
      next
        assume "select_loop w routes1 (s, Some r) = Inr (s, Some r)"
          "select_loop w routes2 (s, Some r') = Inr (s, Some r')"
        with step1 step2 Inr same
        have "0 < length (r # routes1) \<and>
              select_loop w (r # routes1) (bs, br1) = Inr (s, Some ((r # routes1) ! 0)) \<and>
              select_loop w (r' # routes2) (bs, br2) = Inr (s, Some ((r' # routes2) ! 0)) \<and>
              score w ((r # routes1) ! 0) = Inr s \<and> score w ((r' # routes2) ! 0) = Inr s"
          by simp
        then show ?thesis by (intro disjI2 exI)
      next
        fix i s'
        assume "i < length routes1"
          "select_loop w routes1 (s, Some r) = Inr (s', Some (routes1 ! i))"
          "select_loop w routes2 (s, Some r') = Inr (s', Some (routes2 ! i))"
          "score w (routes1 ! i) = Inr s'" "score w (routes2 ! i) = Inr s'"
        with step1 step2
        have "Suc i < length (r # routes1) \<and>
              select_loop w (r # routes1) (bs, br1) = Inr (s', Some ((r # routes1) ! Suc i)) \<and>
              select_loop w (r' # routes2) (bs, br2) = Inr (s', Some ((r' # routes2) ! Suc i)) \<and>
              score w ((r # routes1) ! Suc i) = Inr s' \<and> score w ((r' # routes2) ! Suc i) = Inr s'"
          by simp
        then show ?thesis by (intro disjI2 exI)
      qed
    next
      case False
      then have step1: "select_loop w (r # routes1) (bs, br1) = select_loop w routes1 (bs, br1)"
        and step2: "select_loop w (r' # routes2) (bs, br2) = select_loop w routes2 (bs, br2)"
        using Inr same by simp_all
      from Cons.IH [of bs br1 br2] show ?thesis
      proof (elim disjE exE conjE)
        fix e
        assume "select_loop w routes1 (bs, br1) = Inl e"
          "select_loop w routes2 (bs, br2) = Inl e"
        with step1 step2 show ?thesis by simp
      next
        assume "select_loop w routes1 (bs, br1) = Inr (bs, br1)"
          "select_loop w routes2 (bs, br2) = Inr (bs, br2)"
        with step1 step2 show ?thesis by simp
      next
        fix i s'
        assume "i < length routes1"
          "select_loop w routes1 (bs, br1) = Inr (s', Some (routes1 ! i))"
          "select_loop w routes2 (bs, br2) = Inr (s', Some (routes2 ! i))"
          "score w (routes1 ! i) = Inr s'" "score w (routes2 ! i) = Inr s'"
        with step1 step2
        have "Suc i < length (r # routes1) \<and>
              select_loop w (r # routes1) (bs, br1) = Inr (s', Some ((r # routes1) ! Suc i)) \<and>
              select_loop w (r' # routes2) (bs, br2) = Inr (s', Some ((r' # routes2) ! Suc i)) \<and>
              score w ((r # routes1) ! Suc i) = Inr s' \<and> score w ((r' # routes2) ! Suc i) = Inr s'"
          by simp
        then show ?thesis by (intro disjI2 exI)
      qed
    qed
  qed
qed

text \<open>
  Claim C8. Let two route lists agree position by position on every field except
  \<open>feasible\<close>. Then \<open>select_best\<close> raises the same error on both, or returns
  \<^verbatim>\<open>None\<close> on both, or returns the routes at one and the same position of the two
  lists, and these two routes have the same score.
\<close>

text \<open>
  Claim C8. Let two route lists agree position by position on every field except
  \<open>feasible\<close>. Then \<open>select_best\<close> raises the same error on both, or returns
  \<^verbatim>\<open>None\<close> on both, or returns the routes at one and the same position of the two
  lists, and these two routes have the same score.
\<close>

theorem select_best_ignores_feasible:
  assumes "list_all2 (\<lambda>r r'. route r' = route r \<and> distance r' = distance r \<and>
                       time r' = time r \<and> cost r' = cost r \<and> score_time r' = score_time r)
             routes1 routes2"
  shows "(\<exists>e. select_best routes1 w = Inl e \<and> select_best routes2 w = Inl e) \<or>
         (select_best routes1 w = Inr None \<and> select_best routes2 w = Inr None) \<or>
         (\<exists>i s. i < length routes1 \<and>
            select_best routes1 w = Inr (Some (routes1 ! i)) \<and>
            select_best routes2 w = Inr (Some (routes2 ! i)) \<and>
            score w (routes1 ! i) = Inr s \<and> score w (routes2 ! i) = Inr s)"
  using select_loop_feasible [OF assms, of w "Fin (- 1)" None None]
proof (elim disjE exE conjE)
  fix e
  assume "select_loop w routes1 (Fin (- 1), None) = Inl e" "select_loop w routes2 (Fin (- 1), None) = Inl e"
  then show ?thesis by (simp add: select_best_def)
next
  assume "select_loop w routes1 (Fin (- 1), None) = Inr (Fin (- 1), None)"
    "select_loop w routes2 (Fin (- 1), None) = Inr (Fin (- 1), None)"
  then show ?thesis by (simp add: select_best_def)
next
  fix i s
  assume "i < length routes1"
    "select_loop w routes1 (Fin (- 1), None) = Inr (s, Some (routes1 ! i))"
    "select_loop w routes2 (Fin (- 1), None) = Inr (s, Some (routes2 ! i))"
    "score w (routes1 ! i) = Inr s" "score w (routes2 ! i) = Inr s"
  then have "i < length routes1 \<and>
            select_best routes1 w = Inr (Some (routes1 ! i)) \<and>
            select_best routes2 w = Inr (Some (routes2 ! i)) \<and>
            score w (routes1 ! i) = Inr s \<and> score w (routes2 ! i) = Inr s"
    by (simp add: select_best_def)
  then show ?thesis by (intro disjI2 exI)
qed

theorem select_best_ignores_feasible_witness:
  "list_all2 (\<lambda>r r'. route r' = route r \<and> distance r' = distance r \<and>
                time r' = time r \<and> cost r' = cost r \<and> score_time r' = score_time r)
     [\<lparr>route = ''Route A'', distance = PInt 10, time = PInt 20, cost = Some (PInt 50),
        score_time = Some (round_double (1 / 20)), feasible = Some True\<rparr>,
      \<lparr>route = ''Route B'', distance = PInt 14, time = PInt 15, cost = Some (PInt 70),
        score_time = Some (round_double (1 / 15)), feasible = Some True\<rparr>]
     [\<lparr>route = ''Route A'', distance = PInt 10, time = PInt 20, cost = Some (PInt 50),
        score_time = Some (round_double (1 / 20)), feasible = None\<rparr>,
      \<lparr>route = ''Route B'', distance = PInt 14, time = PInt 15, cost = Some (PInt 70),
        score_time = Some (round_double (1 / 15)), feasible = Some False\<rparr>] \<and>
   select_best
     [\<lparr>route = ''Route A'', distance = PInt 10, time = PInt 20, cost = Some (PInt 50),
        score_time = Some (round_double (1 / 20)), feasible = Some True\<rparr>,
      \<lparr>route = ''Route B'', distance = PInt 14, time = PInt 15, cost = Some (PInt 70),
        score_time = Some (round_double (1 / 15)), feasible = Some True\<rparr>]
     \<lparr>time_weight = round_double (6 / 10), cost_weight = round_double (4 / 10)\<rparr> =
     Inr (Some \<lparr>route = ''Route B'', distance = PInt 14, time = PInt 15, cost = Some (PInt 70),
                 score_time = Some (round_double (1 / 15)), feasible = Some True\<rparr>) \<and>
   select_best
     [\<lparr>route = ''Route A'', distance = PInt 10, time = PInt 20, cost = Some (PInt 50),
        score_time = Some (round_double (1 / 20)), feasible = None\<rparr>,
      \<lparr>route = ''Route B'', distance = PInt 14, time = PInt 15, cost = Some (PInt 70),
        score_time = Some (round_double (1 / 15)), feasible = Some False\<rparr>]
     \<lparr>time_weight = round_double (6 / 10), cost_weight = round_double (4 / 10)\<rparr> =
     Inr (Some \<lparr>route = ''Route B'', distance = PInt 14, time = PInt 15, cost = Some (PInt 70),
                 score_time = Some (round_double (1 / 15)), feasible = Some False\<rparr>)"
  (is "list_all2 ?same ?rs1 ?rs2 \<and> select_best ?rs1 ?w = Inr (Some ?b1) \<and>
       select_best ?rs2 ?w = Inr (Some ?b2)")
proof -
  have same: "list_all2 ?same ?rs1 ?rs2" by simp
  have sel1: "select_best ?rs1 ?w = Inr (Some ?b1)"
    by (simp add: select_best_def score_def round_double_eval)
  from select_best_ignores_feasible [OF same, of ?w]
  have "select_best ?rs2 ?w = Inr (Some ?b2)"
  proof (elim disjE exE conjE)
    fix e assume "select_best ?rs1 ?w = Inl e"
    with sel1 show ?thesis by simp
  next
    assume "select_best ?rs1 ?w = Inr None"
    with sel1 show ?thesis by simp
  next
    fix i s
    assume i: "i < length ?rs1"
      and pick1: "select_best ?rs1 ?w = Inr (Some (?rs1 ! i))"
      and pick2: "select_best ?rs2 ?w = Inr (Some (?rs2 ! i))"
    from i have "i = 0 \<or> i = 1" by auto
    moreover from pick1 sel1 have "?rs1 ! i = ?b1" by simp
    then have "i \<noteq> 0" by (cases i) simp_all
    ultimately have "i = 1" by simp
    with pick2 show ?thesis by simp
  qed
  with same sel1 show ?thesis by (intro conjI)
qed

subsection \<open>The abstract agent\<close>

text \<open>
  Claim C9. \<^verbatim>\<open>BaseAgent.process\<close> raises \<^verbatim>\<open>NotImplementedError\<close> for every input.
\<close>

theorem BaseAgent_process_raises: "BaseAgent_process data = Inl NotImplementedError"
  by (simp add: BaseAgent_process_def)

subsection \<open>The sentinel of the scan\<close>

text \<open>
  Claim C10. There is a non-empty route list on which \<open>select_best\<close> returns \<^verbatim>\<open>None\<close>:
  a single route of time \<^verbatim>\<open>-0.5\<close> and cost \<^verbatim>\<open>-0.5\<close> scores \<^verbatim>\<open>-2.0\<close> under the
  weights 0.6 and 0.4, which does not exceed the initial best score \<^verbatim>\<open>-1\<close>.
\<close>

theorem select_best_nonempty_none:
  "[\<lparr>route = ''Route N'', distance = PFloat (round_double (- 1 / 10)),
       time = PFloat (Fin (- 1 / 2)), cost = Some (PFloat (Fin (- 1 / 2))),
       score_time = Some (Fin (- 2)), feasible = Some True\<rparr>] \<noteq> [] \<and>
   score \<lparr>time_weight = round_double (6 / 10), cost_weight = round_double (4 / 10)\<rparr>
     \<lparr>route = ''Route N'', distance = PFloat (round_double (- 1 / 10)),
       time = PFloat (Fin (- 1 / 2)), cost = Some (PFloat (Fin (- 1 / 2))),
       score_time = Some (Fin (- 2)), feasible = Some True\<rparr> = Inr (Fin (- 2)) \<and>
   select_best
     [\<lparr>route = ''Route N'', distance = PFloat (round_double (- 1 / 10)),
       time = PFloat (Fin (- 1 / 2)), cost = Some (PFloat (Fin (- 1 / 2))),
       score_time = Some (Fin (- 2)), feasible = Some True\<rparr>]
     \<lparr>time_weight = round_double (6 / 10), cost_weight = round_double (4 / 10)\<rparr> = Inr None"
  by (simp add: select_best_def score_def round_double_eval)

end
